theory Spec2Isabelle
  imports Complex_Main "HOL-Library.Stream" "HOL-Library.While_Combinator"
begin

section \<open>The Martingale roulette simulator (martingale.py)\<close>

text \<open>
  Amounts of money (bankroll, bets, target) are Python integers, hence \<^typ>\<open>int\<close>.
  The win probability and the samples of \<open>np.random.random()\<close> are only ever
  compared with \<open><\<close>, which is exact on floats, so they are rationals. The
  process-wide random generator is a stream of samples; every call of
  \<open>play_roulette\<close> takes the head of the stream and leaves the tail.
\<close>

subsection \<open>Values, errors and printed messages\<close>

text \<open>The Python values a call can hand back.\<close>

datatype pyval = PInt int | PList "int list" | PTuple "pyval list"

text \<open>
  \<open>UnboundLocalError\<close> carries the name of the local variable that was read
  before any assignment. \<open>InvalidParameter\<close> is the error named by the
  specification; no statement of martingale.py raises it.
\<close>

datatype error = UnboundLocalError string | TypeError | InvalidParameter

text \<open>The three texts assigned to \<open>outcome\<close>, with the values formatted into them.\<close>

datatype message =
    ExceedsMaximum int int int
  | NotEnough int int
  | Congratulations int

subsection \<open>State\<close>

text \<open>
  \<open>rng\<close> is the state of the random generator and \<open>stdout\<close> what has been
  printed. \<open>outcome\<close> and \<open>reached_target\<close> are locals that are assigned only
  inside the loops, so they are optional. \<open>spins\<close> is instrumentation: the number
  of loop iterations executed so far; it is not a variable of the source.
\<close>

record world =
  rng :: "rat stream"
  stdout :: "message list"

record spin_state = world +
  bankroll :: int
  bankroll_log :: "int list"
  bet :: int
  winnings :: int
  outcome :: "message option"
  spins :: nat

record trial_state = spin_state +
  gain :: int
  reached_target :: "int option"

subsection \<open>play_roulette\<close>

definition play_roulette :: "int \<Rightarrow> rat \<Rightarrow> rat stream \<Rightarrow> int \<times> rat stream" where
  "play_roulette b win_probability r =
     (let outcome_sign = (if shd r < win_probability then 1 else - 1);
          w = b * outcome_sign
      in (w, stl r))"

subsection \<open>play_martingale\<close>





subsection \<open>iterate_martingale\<close>

definition iterate_guard :: "int \<Rightarrow> int \<Rightarrow> trial_state \<Rightarrow> bool" where
  "iterate_guard target max_bet s \<longleftrightarrow>
     bankroll s \<ge> bet s \<and> bet s \<le> max_bet \<and> gain s < target"

definition iterate_body :: "int \<Rightarrow> int \<Rightarrow> int \<Rightarrow> rat \<Rightarrow> trial_state \<Rightarrow> trial_state" where
  "iterate_body target min_bet max_bet win_probability s =
     (let (w, r) = play_roulette (bet s) win_probability (rng s);
          b = bankroll s + w;
          lg = bankroll_log s @ [b];
          g = last lg - hd lg;
          bt = (if w < 0 then bet s * 2 else min_bet);
          o1 = (if bt > max_bet then Some (ExceedsMaximum bt max_bet b) else outcome s);
          o2 = (if b < bt then Some (NotEnough b bt) else o1);
          o3 = (if g \<ge> target then Some (Congratulations g) else o2);
          rt = (if g \<ge> target then 1 else 0)
      in s\<lparr>rng := r, bankroll := b, bankroll_log := lg, bet := bt, winnings := w,
            outcome := o3, spins := Suc (spins s), gain := g, reached_target := Some rt\<rparr>)"

definition iterate_init :: "int \<Rightarrow> int \<Rightarrow> world \<Rightarrow> trial_state" where
  "iterate_init bankroll0 min_bet w =
     \<lparr>rng = rng w, stdout = stdout w, bankroll = bankroll0, bankroll_log = [bankroll0],
      bet = min_bet, winnings = 0, outcome = None, spins = 0,
      gain = 0, reached_target = None\<rparr>"

text \<open>Lines 74 to 97: the initialisation and the while loop.\<close>

definition iterate_loop ::
  "int \<Rightarrow> int \<Rightarrow> int \<Rightarrow> int \<Rightarrow> rat \<Rightarrow> world \<Rightarrow> trial_state option" where
  "iterate_loop bankroll0 target min_bet max_bet win_probability w =
     while_option (iterate_guard target max_bet)
       (iterate_body target min_bet max_bet win_probability)
       (iterate_init bankroll0 min_bet w)"

text \<open>
  Lines 99 to 106: what follows the loop. Reading \<open>outcome\<close> or
  \<open>reached_target\<close> while it is still unassigned raises. The calls into the
  plotting library have no effect on the values modelled here.
\<close>

definition iterate_finish :: "bool \<Rightarrow> trial_state \<Rightarrow> (error + pyval) \<times> trial_state" where
  "iterate_finish verbose t =
     (if verbose then
        (case outcome t of
           None \<Rightarrow> (Inl (UnboundLocalError ''outcome''), t)
         | Some m \<Rightarrow>
             (let t' = t\<lparr>stdout := stdout t @ [m]\<rparr>
              in case reached_target t' of
                   None \<Rightarrow> (Inl (UnboundLocalError ''reached_target''), t')
                 | Some f \<Rightarrow> (Inr (PInt f), t')))
      else
        (case reached_target t of
           None \<Rightarrow> (Inl (UnboundLocalError ''reached_target''), t)
         | Some f \<Rightarrow> (Inr (PInt f), t)))"

text \<open>
  The whole call: \<open>None\<close> when the loop never ends, otherwise the value returned
  or the error raised, together with the state at that point (it holds the log).
\<close>

definition iterate_martingale ::
  "int \<Rightarrow> int \<Rightarrow> int \<Rightarrow> int \<Rightarrow> rat \<Rightarrow> bool \<Rightarrow> world
     \<Rightarrow> ((error + pyval) \<times> trial_state) option" where
  "iterate_martingale bankroll0 target min_bet max_bet win_probability verbose w =
     map_option (iterate_finish verbose)
       (iterate_loop bankroll0 target min_bet max_bet win_probability w)"

subsection \<open>simulate_martingales\<close>

text \<open>\<open>wins + iterate_martingale(...)\<close>: only an integer can be added to the count.\<close>

definition add_flag :: "int \<Rightarrow> pyval \<Rightarrow> error + int" where
  "add_flag wins v = (case v of PInt f \<Rightarrow> Inr (wins + f) | _ \<Rightarrow> Inl TypeError)"

text \<open>
  The \<open>for\<close> loop with \<open>n\<close> rounds left. Each trial starts from the world the
  previous one left behind; an error raised by a trial ends the loop.
\<close>

fun simulate_loop ::
  "nat \<Rightarrow> int \<Rightarrow> int \<Rightarrow> int \<Rightarrow> int \<Rightarrow> rat \<Rightarrow> int \<Rightarrow> world \<Rightarrow> ((error + int) \<times> world) option" where
  "simulate_loop 0 bankroll0 target min_bet max_bet win_probability wins w = Some (Inr wins, w)"
| "simulate_loop (Suc n) bankroll0 target min_bet max_bet win_probability wins w =
     (case iterate_martingale bankroll0 target min_bet max_bet win_probability False w of
        None \<Rightarrow> None
      | Some (Inl e, t) \<Rightarrow> Some (Inl e, world.truncate t)
      | Some (Inr v, t) \<Rightarrow>
          (case add_flag wins v of
             Inl e \<Rightarrow> Some (Inl e, world.truncate t)
           | Inr wins' \<Rightarrow>
               simulate_loop n bankroll0 target min_bet max_bet win_probability wins'
                 (world.truncate t)))"

text \<open>\<open>win_pct = wins*1.0/1000\<close>, with the quotient taken exactly.\<close>

definition simulate_martingales ::
  "int \<Rightarrow> int \<Rightarrow> int \<Rightarrow> int \<Rightarrow> rat \<Rightarrow> world \<Rightarrow> ((error + rat) \<times> world) option" where
  "simulate_martingales bankroll0 target min_bet max_bet win_probability w =
     (case simulate_loop 1000 bankroll0 target min_bet max_bet win_probability 0 w of
        None \<Rightarrow> None
      | Some (Inl e, w') \<Rightarrow> Some (Inl e, w')
      | Some (Inr wins, w') \<Rightarrow> Some (Inr (of_int wins * 1 / 1000), w'))"

subsection \<open>Auxiliary notions for the proofs\<close>

text \<open>The state after \<open>n\<close> passes through the body of the loop of \<open>iterate_martingale\<close>.\<close>

definition trial_after ::
  "nat \<Rightarrow> int \<Rightarrow> int \<Rightarrow> int \<Rightarrow> int \<Rightarrow> rat \<Rightarrow> world \<Rightarrow> trial_state" where
  "trial_after n bankroll0 target min_bet max_bet win_probability w =
     (iterate_body target min_bet max_bet win_probability ^^ n) (iterate_init bankroll0 min_bet w)"

text \<open>How the locals of a trial hang together at the loop head.\<close>

definition trial_inv :: "int \<Rightarrow> int \<Rightarrow> trial_state \<Rightarrow> bool" where
  "trial_inv bankroll0 target s \<longleftrightarrow>
     bankroll_log s \<noteq> [] \<and> hd (bankroll_log s) = bankroll0 \<and>
     last (bankroll_log s) = bankroll s \<and> gain s = bankroll s - bankroll0 \<and>
     length (bankroll_log s) = Suc (spins s) \<and>
     (case reached_target s of
        None \<Rightarrow> spins s = 0
      | Some f \<Rightarrow> 0 < spins s \<and> f = (if gain s \<ge> target then 1 else 0))"

text \<open>The number of bets \<open>b\<close>, \<open>2b\<close>, \<open>4b\<close>, ... that stay within the table limit.\<close>

function doublings :: "int \<Rightarrow> int \<Rightarrow> nat" where
  "doublings b mx = (if 0 < b \<and> b \<le> mx then Suc (doublings (2 * b) mx) else 0)"
  by pat_completeness auto
termination
  by (relation "measure (\<lambda>(b, mx). nat (mx + 1 - b))") auto

declare doublings.simps [simp del]

text \<open>
  An upper bound on the spins still to come: the rest of the current losing streak,
  and a full streak for every further win that the target asks for.
\<close>

definition spins_left :: "int \<Rightarrow> int \<Rightarrow> int \<Rightarrow> trial_state \<Rightarrow> nat" where
  "spins_left target min_bet max_bet s =
     (if iterate_guard target max_bet s
      then doublings (bet s) max_bet
           + doublings min_bet max_bet * nat (- ((gain s + bet s - target) div min_bet))
      else 0)"



text \<open>
  The flags returned by \<open>n\<close> trials run one after the other, each from the world the
  previous one left behind; \<open>None\<close> unless every one of them returns an integer.
\<close>

fun trial_flags ::
  "nat \<Rightarrow> int \<Rightarrow> int \<Rightarrow> int \<Rightarrow> int \<Rightarrow> rat \<Rightarrow> world \<Rightarrow> int list option" where
  "trial_flags 0 bankroll0 target min_bet max_bet win_probability w = Some []"
| "trial_flags (Suc n) bankroll0 target min_bet max_bet win_probability w =
     (case iterate_martingale bankroll0 target min_bet max_bet win_probability False w of
        Some (Inr (PInt f), t) \<Rightarrow>
          map_option ((#) f)
            (trial_flags n bankroll0 target min_bet max_bet win_probability (world.truncate t))
      | _ \<Rightarrow> None)"

section \<open>Properties\<close>

subsection \<open>One pass through the loop body\<close>

lemma play_roulette_snd [simp]: "snd (play_roulette b p r) = stl r"
  by (simp add: play_roulette_def)

lemma play_roulette_fst:
  "fst (play_roulette b p r) = (if shd r < p then b else - b)"
  by (simp add: play_roulette_def)

lemma iterate_body_simps:
  "rng (iterate_body T m M p s) = stl (rng s)"
  "stdout (iterate_body T m M p s) = stdout s"
  "spins (iterate_body T m M p s) = Suc (spins s)"
  "winnings (iterate_body T m M p s) = fst (play_roulette (bet s) p (rng s))"
  "bankroll (iterate_body T m M p s) = bankroll s + fst (play_roulette (bet s) p (rng s))"
  "bankroll_log (iterate_body T m M p s)
     = bankroll_log s @ [bankroll s + fst (play_roulette (bet s) p (rng s))]"
  "bet (iterate_body T m M p s)
     = (if fst (play_roulette (bet s) p (rng s)) < 0 then bet s * 2 else m)"
  "gain (iterate_body T m M p s)
     = bankroll s + fst (play_roulette (bet s) p (rng s))
       - hd (bankroll_log s @ [bankroll s + fst (play_roulette (bet s) p (rng s))])"
  "reached_target (iterate_body T m M p s)
     = Some (if gain (iterate_body T m M p s) \<ge> T then 1 else 0)"
  by (simp_all add: iterate_body_def Let_def split_beta)

lemma trial_inv_init: "trial_inv B T (iterate_init B m w)"
  by (simp add: trial_inv_def iterate_init_def)

lemma trial_inv_body:
  assumes "trial_inv B T s"
  shows "trial_inv B T (iterate_body T m M p s)"
  using assms by (simp add: trial_inv_def iterate_body_simps)

lemma doublings_pos: "0 < b \<Longrightarrow> b \<le> M \<Longrightarrow> doublings b M = Suc (doublings (2 * b) M)"
  by (subst doublings.simps) simp

lemma wins_needed_step:
  fixes m :: int
  assumes "0 < m" "g < T"
  shows "nat (- ((g + m - T) div m)) < nat (- ((g - T) div m))"
proof -
  have "g + m - T = (g - T) + m" by simp
  then have "(g + m - T) div m = (g - T) div m + 1"
    using assms(1) by (simp only: div_add_self2)
  moreover have "(g - T) div m < 0"
    using assms by (simp add: div_neg_pos_less0)
  ultimately show ?thesis by simp
qed

lemma spins_left_decreases:
  assumes inv: "trial_inv B T s" and bet: "0 < bet s" and m: "0 < m"
    and g: "iterate_guard T M s"
  shows "spins_left T m M (iterate_body T m M p s) < spins_left T m M s"
proof -
  let ?s' = "iterate_body T m M p s"
  have d: "doublings (bet s) M = Suc (doublings (2 * bet s) M)"
    using g bet by (simp add: doublings_pos iterate_guard_def)
  have hd: "hd (bankroll_log s @ [x]) = B" for x
    using inv by (simp add: trial_inv_def)
  have gs: "gain s = bankroll s - B"
    using inv by (simp add: trial_inv_def)
  show ?thesis
  proof (cases "iterate_guard T M ?s'")
    case False
    then show ?thesis using d g by (simp add: spins_left_def)
  next
    case True
    show ?thesis
    proof (cases "shd (rng s) < p")
      case win: True
      have b': "bet ?s' = m" and g': "gain ?s' = gain s + bet s"
        using win bet gs by (simp_all add: iterate_body_simps play_roulette_fst hd)
      have "gain s + bet s < T"
        using True g' by (simp add: iterate_guard_def)
      from wins_needed_step [OF m this]
      have "nat (- ((gain ?s' + bet ?s' - T) div m)) < nat (- ((gain s + bet s - T) div m))"
        by (simp add: b' g')
      then have "Suc (nat (- ((gain ?s' + bet ?s' - T) div m))) \<le> nat (- ((gain s + bet s - T) div m))"
        by (rule Suc_leI)
      then have "doublings m M * Suc (nat (- ((gain ?s' + bet ?s' - T) div m)))
          \<le> doublings m M * nat (- ((gain s + bet s - T) div m))"
        by (rule mult_le_mono2)
      then show ?thesis
        using True g d by (simp add: spins_left_def b')
    next
      case loss: False
      have b': "bet ?s' = 2 * bet s" and g': "gain ?s' = gain s - bet s"
        using loss bet gs by (simp_all add: iterate_body_simps play_roulette_fst hd)
      have e: "gain ?s' + bet ?s' = gain s + bet s"
        by (simp add: b' g')
      have "spins_left T m M ?s' = doublings (bet ?s') M
          + doublings m M * nat (- ((gain ?s' + bet ?s' - T) div m))"
        using True by (simp add: spins_left_def)
      moreover have "spins_left T m M s = doublings (bet s) M
          + doublings m M * nat (- ((gain s + bet s - T) div m))"
        using g by (simp add: spins_left_def)
      ultimately show ?thesis
        by (simp only: e) (simp add: b' d)
    qed
  qed
qed

lemma bet_pos_body:
  "0 < m \<Longrightarrow> 0 < bet s \<Longrightarrow> 0 < bet (iterate_body T m M p s)"
  by (simp add: iterate_body_simps)

subsection \<open>Termination of a trial and the number of spins\<close>

lemma iterate_loop_terminates:
  assumes m: "0 < m"
  shows "\<exists>t. iterate_loop B T m M p w = Some t"
  unfolding iterate_loop_def
proof (rule measure_while_option_Some
    [where P = "\<lambda>s. trial_inv B T s \<and> 0 < bet s" and f = "spins_left T m M"])
  fix s
  assume P: "trial_inv B T s \<and> 0 < bet s" and g: "iterate_guard T M s"
  from P g m have "spins_left T m M (iterate_body T m M p s) < spins_left T m M s"
    by (blast intro: spins_left_decreases)
  with P show "(trial_inv B T (iterate_body T m M p s) \<and> 0 < bet (iterate_body T m M p s))
      \<and> spins_left T m M (iterate_body T m M p s) < spins_left T m M s"
    using m by (simp add: trial_inv_body bet_pos_body)
next
  show "trial_inv B T (iterate_init B m w) \<and> 0 < bet (iterate_init B m w)"
    using m by (simp add: trial_inv_init) (simp add: iterate_init_def)
qed

lemma iterate_loop_inv:
  assumes "iterate_loop B T m M p w = Some t"
  shows "trial_inv B T t"
  using assms unfolding iterate_loop_def
  by (rule while_option_rule [where P = "trial_inv B T", rotated 1])
     (simp_all add: trial_inv_init trial_inv_body)

lemma spins_left_init:
  assumes m: "0 < m"
  shows "spins_left T m M (iterate_init B m w) \<le> doublings m M * nat (- ((- T) div m))"
proof (cases "iterate_guard T M (iterate_init B m w)")
  case False
  then show ?thesis by (simp add: spins_left_def)
next
  case True
  then have T: "0 < T" by (simp add: iterate_guard_def iterate_init_def)
  have "m - T = (- T) + m" by simp
  then have e: "(m - T) div m = (- T) div m + 1"
    using m by (simp only: div_add_self2)
  have neg: "(- T) div m < 0"
    using T m by (simp add: div_neg_pos_less0)
  have "nat (- ((- T) div m)) = Suc (nat (- ((m - T) div m)))"
    using e neg by simp
  moreover have "spins_left T m M (iterate_init B m w)
      = doublings m M + doublings m M * nat (- ((m - T) div m))"
    using True by (simp add: spins_left_def) (simp add: iterate_init_def)
  ultimately show ?thesis by simp
qed

lemma iterate_loop_spins_le:
  assumes m: "0 < m" and res: "iterate_loop B T m M p w = Some t"
  shows "spins t \<le> doublings m M * nat (- ((- T) div m))"
proof -
  let ?N = "spins_left T m M (iterate_init B m w)"
  let ?P = "\<lambda>s. (trial_inv B T s \<and> 0 < bet s) \<and> spins s + spins_left T m M s \<le> ?N"
  have "?P t"
  proof (rule while_option_rule [where P = ?P])
    show "while_option (iterate_guard T M) (iterate_body T m M p) (iterate_init B m w) = Some t"
      using res by (simp add: iterate_loop_def)
  next
    show "?P (iterate_init B m w)"
      using m by (simp add: trial_inv_init) (simp add: iterate_init_def)
  next
    fix s assume P: "?P s" and g: "iterate_guard T M s"
    from P g m have "spins_left T m M (iterate_body T m M p s) < spins_left T m M s"
      by (blast intro: spins_left_decreases)
    with P show "?P (iterate_body T m M p s)"
      using m by (simp add: trial_inv_body bet_pos_body iterate_body_simps)
  qed
  then have "spins t \<le> ?N" by simp
  also have "\<dots> \<le> doublings m M * nat (- ((- T) div m))"
    using m by (rule spins_left_init)
  finally show ?thesis .
qed

lemma doublings_power:
  "doublings b M = Suc k \<Longrightarrow> 0 < b \<and> b * 2 ^ k \<le> M"
proof (induction k arbitrary: b)
  case 0
  then show ?case by (subst (asm) doublings.simps) (simp split: if_splits)
next
  case (Suc k)
  from Suc.prems have b: "0 < b" "b \<le> M" and d: "doublings (2 * b) M = Suc k"
    by (subst (asm) doublings.simps, simp split: if_splits)+
  from Suc.IH [OF d] b show ?case by (simp add: mult.assoc)
qed

lemma doublings_le_log:
  assumes "0 < m" "m \<le> M"
  shows "int (doublings m M) \<le> \<lceil>log 2 (real_of_int M / real_of_int m)\<rceil> + 2"
proof (cases "doublings m M")
  case 0
  have "1 \<le> real_of_int M / real_of_int m" using assms by simp
  then have "0 \<le> log 2 (real_of_int M / real_of_int m)" by simp
  then have "0 \<le> \<lceil>log 2 (real_of_int M / real_of_int m)\<rceil>" by simp
  with 0 show ?thesis by simp
next
  case (Suc k)
  from doublings_power [OF Suc] have "m * 2 ^ k \<le> M" by simp
  then have "real_of_int (m * 2 ^ k) \<le> real_of_int M" by (simp only: of_int_le_iff)
  then have "2 ^ k \<le> real_of_int M / real_of_int m"
    using assms(1) by (simp add: pos_le_divide_eq mult.commute)
  then have "real k \<le> log 2 (real_of_int M / real_of_int m)"
    by (rule le_log_of_power) simp
  then have "int k \<le> \<lceil>log 2 (real_of_int M / real_of_int m)\<rceil>"
    by (simp add: le_ceiling_iff)
  with Suc show ?thesis by simp
qed

text \<open>
  C5, as amended. With a positive minimum bet that does not exceed the table limit, the
  trial ends for every random stream; a losing streak lasts at most
  \<open>ceil(log2(max_bet/min_bet)) + 2\<close> spins, and the trial needs at most
  \<open>ceil(target/min_bet)\<close> wins, so the number of spins is at most the product of the two
  (no spin at all when the target is not positive).
\<close>

theorem iterate_loop_spins_bound:
  assumes "0 < min_bet" "min_bet \<le> max_bet"
  shows "\<exists>t. iterate_loop bankroll0 target min_bet max_bet win_probability w = Some t \<and>
     int (spins t) \<le> max 0 \<lceil>real_of_int target / real_of_int min_bet\<rceil>
        * (\<lceil>log 2 (real_of_int max_bet / real_of_int min_bet)\<rceil> + 2)"
proof -
  from iterate_loop_terminates [OF assms(1)]
  obtain t where t: "iterate_loop bankroll0 target min_bet max_bet win_probability w = Some t"
    by blast
  let ?W = "max 0 \<lceil>real_of_int target / real_of_int min_bet\<rceil>"
  let ?L = "\<lceil>log 2 (real_of_int max_bet / real_of_int min_bet)\<rceil> + 2"
  have W: "int (nat (- ((- target) div min_bet))) = ?W"
    by (simp add: ceiling_divide_eq_div max_def)
  have "int (spins t) \<le> int (doublings min_bet max_bet * nat (- ((- target) div min_bet)))"
    using iterate_loop_spins_le [OF assms(1) t] by (simp only: of_nat_le_iff)
  also have "\<dots> = int (doublings min_bet max_bet) * ?W"
    by (simp only: of_nat_mult W)
  also have "\<dots> \<le> ?L * ?W"
    by (rule mult_right_mono) (simp_all add: doublings_le_log assms)
  finally show ?thesis using t by (simp add: mult.commute)
qed

text \<open>
  Witness of C5 as amended: bankroll 1000, target 30, bets from 5 to 40, a stream on
  which every spin wins.
\<close>

theorem iterate_loop_spins_bound_witness:
  "(0::int) < 5 \<and> (5::int) \<le> 40 \<and>
   (\<exists>t. iterate_loop 1000 30 5 40 (1/2) \<lparr>rng = sconst 0, stdout = []\<rparr> = Some t \<and>
     int (spins t) \<le> max 0 \<lceil>real_of_int 30 / real_of_int 5\<rceil>
        * (\<lceil>log 2 (real_of_int 40 / real_of_int 5)\<rceil> + 2))"
proof -
  have a: "(0::int) < 5" and b: "(5::int) \<le> 40" by simp_all
  from iterate_loop_spins_bound [OF a b] show ?thesis using a b by blast
qed

subsection \<open>Running a trial on given samples\<close>

lemmas trial_eval =
  iterate_loop_def iterate_init_def iterate_guard_def iterate_body_def play_roulette_def
  iterate_martingale_def iterate_finish_def while_option_unfold Let_def

lemma log2_8: "log 2 8 = 3"
proof -
  have "log 2 (2 ^ 3) = real 3" by (rule log_pow_cancel) simp_all
  then show ?thesis by simp
qed

text \<open>
  C5 as stated fails: with bets from 5 to 40 the stated bound is
  \<open>ceil(log2(40/5)) + 2 = 5\<close>, but a player who wins every spin needs six spins of 5
  to reach the target 30, because a win resets the bet.
\<close>

theorem spins_exceed_streak_bound:
  "map_option spins (iterate_loop 1000 30 5 40 (1/2) \<lparr>rng = sconst 0, stdout = []\<rparr>) = Some 6
   \<and> \<not> int 6 \<le> \<lceil>log 2 (real_of_int 40 / real_of_int 5)\<rceil> + 2"
  by (simp add: trial_eval log2_8)

subsection \<open>The steps of the bankroll log\<close>

lemma trial_after_0 [simp]: "trial_after 0 B T m M p w = iterate_init B m w"
  by (simp add: trial_after_def)

lemma trial_after_Suc [simp]:
  "trial_after (Suc n) B T m M p w = iterate_body T m M p (trial_after n B T m M p w)"
  by (simp add: trial_after_def)

lemma trial_after_inv: "trial_inv B T (trial_after n B T m M p w)"
  by (induction n) (simp_all add: trial_inv_init trial_inv_body)

lemma trial_after_spins [simp]: "spins (trial_after n B T m M p w) = n"
  by (induction n) (simp_all add: iterate_body_simps iterate_init_def)

lemma trial_after_rng: "rng (trial_after n B T m M p w) = sdrop n (rng w)"
  by (induction n) (simp_all add: iterate_body_simps iterate_init_def)

lemma trial_after_draw: "shd (rng (trial_after n B T m M p w)) = rng w !! n"
  by (simp add: trial_after_rng)

lemma trial_after_length: "length (bankroll_log (trial_after n B T m M p w)) = Suc n"
  using trial_after_inv [of B T n m M p w] by (simp add: trial_inv_def)

lemma trial_after_last:
  "last (bankroll_log (trial_after n B T m M p w)) = bankroll (trial_after n B T m M p w)"
  using trial_after_inv [of B T n m M p w] by (simp add: trial_inv_def)

lemma trial_after_take:
  "n \<le> k \<Longrightarrow> take (Suc n) (bankroll_log (trial_after k B T m M p w))
     = bankroll_log (trial_after n B T m M p w)"
proof (induction k)
  case 0
  then show ?case using trial_after_length [of 0 B T m M p w] by simp
next
  case (Suc k)
  show ?case
  proof (cases "n = Suc k")
    case True
    then show ?thesis using trial_after_length [of "Suc k" B T m M p w] by simp
  next
    case False
    with Suc.prems have "n \<le> k" by simp
    with Suc.IH show ?thesis
      by (simp add: iterate_body_simps trial_after_length)
  qed
qed

lemma trial_after_nth:
  assumes "n \<le> k"
  shows "bankroll_log (trial_after k B T m M p w) ! n = bankroll (trial_after n B T m M p w)"
proof -
  have "bankroll_log (trial_after k B T m M p w) ! n
      = take (Suc n) (bankroll_log (trial_after k B T m M p w)) ! n"
    by simp
  also have "\<dots> = bankroll_log (trial_after n B T m M p w) ! n"
    using assms by (simp only: trial_after_take)
  also have "\<dots> = last (bankroll_log (trial_after n B T m M p w))"
    using trial_after_length [of n B T m M p w]
    by (simp add: last_conv_nth [OF length_greater_0_conv [THEN iffD1]])
  finally show ?thesis by (simp add: trial_after_last)
qed

lemma while_option_passes:
  assumes "while_option b c s = Some t"
  shows "\<exists>k. t = (c ^^ k) s \<and> \<not> b t \<and> (\<forall>i<k. b ((c ^^ i) s))"
proof -
  let ?k = "LEAST k. \<not> b ((c ^^ k) s)"
  from assms have ex: "\<exists>k. \<not> b ((c ^^ k) s)"
    by (cases "\<exists>k. \<not> b ((c ^^ k) s)") (simp_all add: while_option_def)
  with assms have t: "t = (c ^^ ?k) s"
    by (simp add: while_option_def)
  from ex have "\<not> b ((c ^^ ?k) s)" by (rule LeastI_ex)
  moreover have "\<forall>i<?k. b ((c ^^ i) s)"
    by (auto dest: not_less_Least)
  ultimately show ?thesis using t by blast
qed

lemma iterate_loop_trial_after:
  assumes "iterate_loop B T m M p w = Some t"
  shows "t = trial_after (spins t) B T m M p w"
    and "\<forall>j<spins t. iterate_guard T M (trial_after j B T m M p w)"
proof -
  from assms obtain k where k: "t = (iterate_body T m M p ^^ k) (iterate_init B m w)"
    and g: "\<forall>i<k. iterate_guard T M ((iterate_body T m M p ^^ i) (iterate_init B m w))"
    unfolding iterate_loop_def by (blast dest: while_option_passes)
  from k have e: "t = trial_after k B T m M p w" by (simp add: trial_after_def)
  then show "t = trial_after (spins t) B T m M p w" by simp
  from e have "spins t = k" by simp
  with g show "\<forall>j<spins t. iterate_guard T M (trial_after j B T m M p w)"
    by (simp add: trial_after_def)
qed

text \<open>
  C6. After any number \<open>n\<close> of passes through the loop body, the log starts with the
  initial bankroll and has \<open>n + 1\<close> entries, and entry \<open>i + 1\<close> is entry \<open>i\<close> plus the
  bet in effect at spin \<open>i\<close> when that spin was won (sample \<open>i\<close> below the win
  probability), minus that bet when it was lost. When the loop ends, it ends in the state
  after as many passes as spins were made, and the guard held before each of them, so
  the states after \<open>0\<close>, \<open>1\<close>, ... passes are the states the trial went through. This
  holds for every parameter set and every random stream.
\<close>

theorem bankroll_log_steps:
  "bankroll_log (trial_after n B T m M p w) ! 0 = B \<and>
   length (bankroll_log (trial_after n B T m M p w)) = Suc n \<and>
   (i < n \<longrightarrow>
      bankroll_log (trial_after n B T m M p w) ! Suc i
        = bankroll_log (trial_after n B T m M p w) ! i
          + (if rng w !! i < p then bet (trial_after i B T m M p w)
             else - bet (trial_after i B T m M p w))) \<and>
   (iterate_loop B T m M p w = Some t \<longrightarrow>
      t = trial_after (spins t) B T m M p w \<and>
      (\<forall>j<spins t. iterate_guard T M (trial_after j B T m M p w)))"
proof (intro conjI impI)
  show "bankroll_log (trial_after n B T m M p w) ! 0 = B"
    by (simp add: trial_after_nth iterate_init_def)
  show "length (bankroll_log (trial_after n B T m M p w)) = Suc n"
    by (rule trial_after_length)
  show "t = trial_after (spins t) B T m M p w" if "iterate_loop B T m M p w = Some t"
    using that by (rule iterate_loop_trial_after)
  show "\<forall>j<spins t. iterate_guard T M (trial_after j B T m M p w)"
    if "iterate_loop B T m M p w = Some t"
    using that by (rule iterate_loop_trial_after)
  show "bankroll_log (trial_after n B T m M p w) ! Suc i
        = bankroll_log (trial_after n B T m M p w) ! i
          + (if rng w !! i < p then bet (trial_after i B T m M p w)
             else - bet (trial_after i B T m M p w))" if "i < n"
  proof -
    from that have "Suc i \<le> n" "i \<le> n" by simp_all
    then show ?thesis
      by (simp add: trial_after_nth iterate_body_simps play_roulette_fst trial_after_draw)
  qed
qed

text \<open>
  Witness of C6: a trial that loses 5 and then wins 10.
\<close>

theorem bankroll_log_steps_witness:
  "(1::nat) < 2 \<and>
   iterate_loop 1000 5 5 40 (1/2) \<lparr>rng = [9/10, 0] @- sconst 0, stdout = []\<rparr>
     = Some \<lparr>rng = sconst 0, stdout = [], bankroll = 1005, bankroll_log = [1000, 995, 1005],
         bet = 5, winnings = 10, outcome = Some (Congratulations 5), spins = 2, gain = 5,
         reached_target = Some 1\<rparr> \<and>
   trial_after 2 1000 5 5 40 (1/2) \<lparr>rng = [9/10, 0] @- sconst 0, stdout = []\<rparr>
     = \<lparr>rng = sconst 0, stdout = [], bankroll = 1005, bankroll_log = [1000, 995, 1005],
         bet = 5, winnings = 10, outcome = Some (Congratulations 5), spins = 2, gain = 5,
         reached_target = Some 1\<rparr> \<and>
   bankroll_log (trial_after 2 1000 5 5 40 (1/2) \<lparr>rng = [9/10, 0] @- sconst 0, stdout = []\<rparr>) ! 2
     = bankroll_log (trial_after 2 1000 5 5 40 (1/2)
         \<lparr>rng = [9/10, 0] @- sconst 0, stdout = []\<rparr>) ! 1
       + bet (trial_after 1 1000 5 5 40 (1/2) \<lparr>rng = [9/10, 0] @- sconst 0, stdout = []\<rparr>)"
proof -
  have h: "iterate_loop 1000 5 5 40 (1/2) \<lparr>rng = [9/10, 0] @- sconst 0, stdout = []\<rparr>
     = Some \<lparr>rng = sconst 0, stdout = [], bankroll = 1005, bankroll_log = [1000, 995, 1005],
         bet = 5, winnings = 10, outcome = Some (Congratulations 5), spins = 2, gain = 5,
         reached_target = Some 1\<rparr>"
    by (simp add: trial_eval)
  note steps = bankroll_log_steps [where n = 2 and i = 1 and B = 1000 and T = 5 and m = 5
      and M = 40 and p = "1/2" and w = "\<lparr>rng = [9/10, 0] @- sconst 0, stdout = []\<rparr>"
      and t = "\<lparr>rng = sconst 0, stdout = [], bankroll = 1005, bankroll_log = [1000, 995, 1005],
         bet = 5, winnings = 10, outcome = Some (Congratulations 5), spins = 2, gain = 5,
         reached_target = Some 1\<rparr>"]
  from steps [THEN conjunct2, THEN conjunct2, THEN conjunct2, THEN mp, OF h, THEN conjunct1]
  have "\<lparr>rng = sconst 0, stdout = [], bankroll = 1005, bankroll_log = [1000, 995, 1005],
         bet = 5, winnings = 10, outcome = Some (Congratulations 5), spins = 2, gain = 5,
         reached_target = Some 1\<rparr>
     = trial_after (spins \<lparr>rng = sconst 0, stdout = [], bankroll = 1005,
         bankroll_log = [1000, 995, 1005],
         bet = 5, winnings = 10, outcome = Some (Congratulations 5), spins = 2, gain = 5,
         reached_target = Some (1::int)\<rparr>) 1000 5 5 40 (1/2)
         \<lparr>rng = [9/10, 0] @- sconst 0, stdout = []\<rparr>"
    .
  then have e: "trial_after 2 1000 5 5 40 (1/2) \<lparr>rng = [9/10, 0] @- sconst 0, stdout = []\<rparr>
     = \<lparr>rng = sconst 0, stdout = [], bankroll = 1005, bankroll_log = [1000, 995, 1005],
         bet = 5, winnings = 10, outcome = Some (Congratulations 5), spins = 2, gain = 5,
         reached_target = Some 1\<rparr>"
    by simp
  have b: "bet (trial_after 1 1000 5 5 40 (1/2) \<lparr>rng = [9/10, 0] @- sconst 0, stdout = []\<rparr>)
     = 10"
    by (simp add: trial_after_def iterate_init_def iterate_body_def play_roulette_def Let_def)
  from h e b show ?thesis by simp
qed

subsection \<open>The exit of the loop\<close>

lemma iterate_body_outcome:
  "\<not> iterate_guard T M (iterate_body T m M p s) \<Longrightarrow> outcome (iterate_body T m M p s) \<noteq> None"
  by (auto simp add: iterate_guard_def iterate_body_def Let_def split_beta split: if_splits)

lemma iterate_loop_outcome:
  assumes "iterate_loop B T m M p w = Some t" and "0 < spins t"
  shows "outcome t \<noteq> None"
proof -
  from assms(1) have t: "t = trial_after (spins t) B T m M p w"
    by (rule iterate_loop_trial_after)
  from assms(2) obtain k where k: "spins t = Suc k" by (cases "spins t") simp_all
  from assms(1) have "\<not> iterate_guard T M t"
    unfolding iterate_loop_def by (rule while_option_stop)
  with t k show ?thesis
    using iterate_body_outcome [of T M m p "trial_after k B T m M p w"] by simp
qed

lemma iterate_loop_no_spin:
  assumes "\<not> iterate_guard T M (iterate_init B m w)"
  shows "iterate_loop B T m M p w = Some (iterate_init B m w)"
  using assms unfolding iterate_loop_def by (subst while_option_unfold) simp

lemma iterate_loop_first_spin:
  assumes g: "iterate_guard T M (iterate_init B m w)"
    and res: "iterate_loop B T m M p w = Some t"
  shows "0 < spins t"
proof (rule ccontr)
  assume "\<not> 0 < spins t"
  then have "spins t = 0" by simp
  with iterate_loop_trial_after [OF res] have "t = iterate_init B m w" by simp
  moreover from res have "\<not> iterate_guard T M t"
    unfolding iterate_loop_def by (rule while_option_stop)
  ultimately show False using g by simp
qed

lemma iterate_init_guard:
  "iterate_guard T M (iterate_init B m w) \<longleftrightarrow> m \<le> B \<and> m \<le> M \<and> 0 < T"
  by (simp add: iterate_guard_def iterate_init_def)

lemma iterate_finish_flag:
  assumes inv: "trial_inv B T t" and sp: "0 < spins t" and out: "outcome t \<noteq> None"
  shows "\<exists>t'. iterate_finish v t = (Inr (PInt (if T \<le> gain t then 1 else 0)), t') \<and>
     bankroll_log t' = bankroll_log t \<and> spins t' = spins t \<and> gain t' = gain t"
proof -
  from inv sp have "reached_target t = Some (if T \<le> gain t then 1 else 0)"
    by (cases "reached_target t") (simp_all add: trial_inv_def)
  with out show ?thesis
    by (cases "outcome t") (simp_all add: iterate_finish_def)
qed

lemma iterate_finish_no_spin:
  assumes inv: "trial_inv B T t" and sp: "spins t = 0"
  shows "\<exists>x t'. iterate_finish v t = (Inl (UnboundLocalError x), t')"
proof -
  from inv sp have "reached_target t = None"
    by (cases "reached_target t") (simp_all add: trial_inv_def)
  then show ?thesis
    by (cases "outcome t") (simp_all add: iterate_finish_def)
qed

lemma iterate_martingale_flag:
  assumes "0 < m" "m \<le> B" "m \<le> M" "0 < T"
  shows "\<exists>t t'. iterate_loop B T m M p w = Some t \<and>
     iterate_martingale B T m M p v w = Some (Inr (PInt (if T \<le> gain t then 1 else 0)), t') \<and>
     bankroll_log t' = bankroll_log t \<and> spins t' = spins t \<and> gain t' = gain t \<and> 0 < spins t"
proof -
  from iterate_loop_terminates [OF assms(1)]
  obtain t where t: "iterate_loop B T m M p w = Some t" by blast
  have sp: "0 < spins t"
    using assms t by (simp add: iterate_loop_first_spin iterate_init_guard)
  from iterate_finish_flag [OF iterate_loop_inv [OF t] sp iterate_loop_outcome [OF t sp]]
  obtain t' where "iterate_finish v t = (Inr (PInt (if T \<le> gain t then 1 else 0)), t')"
    "bankroll_log t' = bankroll_log t" "spins t' = spins t" "gain t' = gain t"
    by blast
  with t sp show ?thesis by (simp add: iterate_martingale_def)
qed

subsection \<open>What a call returns\<close>

text \<open>
  C1, as amended. When a first spin is possible (\<open>0 < min_bet \<le> bankroll\<close>,
  \<open>min_bet \<le> max_bet\<close>, \<open>0 < target\<close>), the call returns, for every random stream and
  either value of \<open>verbose\<close>, the flag alone: 1 when the gain at the exit of the loop has
  reached the target, 0 otherwise. The log is kept in the local state, one entry per
  spin after the initial bankroll; it is not part of the returned value.
\<close>

theorem iterate_martingale_returns_flag:
  assumes "0 < min_bet" "min_bet \<le> bankroll0" "min_bet \<le> max_bet" "0 < target"
  shows "\<exists>t. iterate_martingale bankroll0 target min_bet max_bet win_probability verbose w
        = Some (Inr (PInt (if target \<le> gain t then 1 else 0)), t) \<and>
     0 < spins t \<and> length (bankroll_log t) = Suc (spins t) \<and>
     hd (bankroll_log t) = bankroll0 \<and> gain t = last (bankroll_log t) - bankroll0"
proof -
  from iterate_martingale_flag [OF assms]
  obtain t t' where t: "iterate_loop bankroll0 target min_bet max_bet win_probability w = Some t"
    and r: "iterate_martingale bankroll0 target min_bet max_bet win_probability verbose w
        = Some (Inr (PInt (if target \<le> gain t then 1 else 0)), t')"
    and eq: "bankroll_log t' = bankroll_log t" "spins t' = spins t" "gain t' = gain t"
    and sp: "0 < spins t"
    by blast
  from iterate_loop_inv [OF t] have "trial_inv bankroll0 target t" .
  then have "length (bankroll_log t) = Suc (spins t)" "hd (bankroll_log t) = bankroll0"
    "gain t = last (bankroll_log t) - bankroll0"
    by (simp_all add: trial_inv_def)
  with r eq sp show ?thesis by (intro exI [of _ t']) simp
qed

text \<open>
  Witness of C1 as amended: win, lose, lose, win.
\<close>

theorem iterate_martingale_returns_flag_witness:
  "(0::int) < 5 \<and> (5::int) \<le> 1000 \<and> (5::int) \<le> 500 \<and> (0::int) < 10 \<and>
   (\<exists>t. iterate_martingale 1000 10 5 500 (1/2) True \<lparr>rng = [0, 1, 1, 0] @- sconst 0, stdout = []\<rparr>
        = Some (Inr (PInt (if 10 \<le> gain t then 1 else 0)), t) \<and>
     0 < spins t \<and> length (bankroll_log t) = Suc (spins t) \<and>
     hd (bankroll_log t) = 1000 \<and> gain t = last (bankroll_log t) - 1000)"
proof -
  have h: "(0::int) < 5" "(5::int) \<le> 1000" "(5::int) \<le> 500" "(0::int) < 10" by simp_all
  from iterate_martingale_returns_flag [OF h] show ?thesis using h by blast
qed

text \<open>
  C1 as stated fails: on valid parameters the value returned is the integer 1, not a
  pair of the flag and the log \<open>[1000, 1005]\<close>.
\<close>

theorem returns_flag_without_log:
  "map_option fst (iterate_martingale 1000 5 5 500 (1/2) False \<lparr>rng = sconst 0, stdout = []\<rparr>)
     = Some (Inr (PInt 1)) \<and>
   map_option fst (iterate_martingale 1000 5 5 500 (1/2) False \<lparr>rng = sconst 0, stdout = []\<rparr>)
     \<noteq> Some (Inr (PTuple [PInt 1, PList [1000, 1005]])) \<and>
   map_option (bankroll_log \<circ> snd)
     (iterate_martingale 1000 5 5 500 (1/2) False \<lparr>rng = sconst 0, stdout = []\<rparr>)
     = Some [1000, 1005]"
  by (simp add: trial_eval)

text \<open>
  C2 at the failing input \<open>bankroll = 100\<close>, \<open>target = 0\<close>: the loop makes no spin and
  the log is \<open>[100]\<close>, but \<open>return reached_target\<close> reads a variable that was never
  assigned.
\<close>

theorem nonpositive_target_raises:
  "map_option fst (iterate_martingale 100 0 5 500 (1/2) False \<lparr>rng = sconst 0, stdout = []\<rparr>)
     = Some (Inl (UnboundLocalError ''reached_target'')) \<and>
   map_option (spins \<circ> snd)
     (iterate_martingale 100 0 5 500 (1/2) False \<lparr>rng = sconst 0, stdout = []\<rparr>) = Some 0 \<and>
   map_option (bankroll_log \<circ> snd)
     (iterate_martingale 100 0 5 500 (1/2) False \<lparr>rng = sconst 0, stdout = []\<rparr>) = Some [100]"
  by (simp add: trial_eval)

text \<open>
  C3 as stated fails: with bankroll 3 and minimum bet 5 the call raises instead of
  returning anything.
\<close>

theorem small_bankroll_raises:
  "map_option fst (iterate_martingale 3 5 5 500 (1/2) False \<lparr>rng = sconst 0, stdout = []\<rparr>)
     = Some (Inl (UnboundLocalError ''reached_target''))"
  by (simp add: trial_eval)

text \<open>
  C3, as amended. When the minimum bet exceeds the initial bankroll, the guard fails at
  the first check: the loop ends without a spin and the log is the initial bankroll
  alone.
\<close>

theorem small_bankroll_no_spin:
  assumes "bankroll0 < min_bet"
  shows "\<exists>t. iterate_loop bankroll0 target min_bet max_bet win_probability w = Some t \<and>
     spins t = 0 \<and> bankroll_log t = [bankroll0]"
proof -
  from assms have "\<not> iterate_guard target max_bet (iterate_init bankroll0 min_bet w)"
    by (simp add: iterate_init_guard)
  then have "iterate_loop bankroll0 target min_bet max_bet win_probability w
      = Some (iterate_init bankroll0 min_bet w)"
    by (rule iterate_loop_no_spin)
  then show ?thesis by (simp add: iterate_init_def)
qed

text \<open>
  Witness of C3 as amended.
\<close>

theorem small_bankroll_no_spin_witness:
  "(3::int) < 5 \<and>
   (\<exists>t. iterate_loop 3 5 5 500 (1/2) \<lparr>rng = sconst 0, stdout = []\<rparr> = Some t \<and>
     spins t = 0 \<and> bankroll_log t = [3])"
proof -
  have h: "(3::int) < 5" by simp
  from small_bankroll_no_spin [OF h] show ?thesis using h by blast
qed






subsection \<open>Win probability zero\<close>







subsection \<open>The walk-away trial\<close>











subsection \<open>The aggregator\<close>

lemma iterate_martingale_value:
  assumes "iterate_martingale B T m M p v w = Some (Inr x, t)"
  shows "x = PInt 0 \<or> x = PInt 1"
proof -
  from assms obtain u where u: "iterate_loop B T m M p w = Some u"
    and f: "iterate_finish v u = (Inr x, t)"
    by (auto simp add: iterate_martingale_def)
  from iterate_loop_inv [OF u] have "trial_inv B T u" .
  with f show ?thesis
    by (auto simp add: iterate_finish_def trial_inv_def Let_def split: if_splits option.splits)
qed

lemma simulate_loop_flags:
  "simulate_loop n B T m M p wins w = Some (Inr wins', w') \<Longrightarrow>
   \<exists>fs. trial_flags n B T m M p w = Some fs \<and> length fs = n \<and>
     wins' = wins + int (length (filter (\<lambda>f. f = 1) fs))"
proof (induction n arbitrary: wins w)
  case 0
  then show ?case by simp
next
  case (Suc n)
  from Suc.prems obtain x t where r: "iterate_martingale B T m M p False w = Some (Inr x, t)"
    by (auto split: option.splits sum.splits)
  from iterate_martingale_value [OF r] obtain f where x: "x = PInt f" and f: "f = 0 \<or> f = 1"
    by blast
  from Suc.prems r x
  have "simulate_loop n B T m M p (wins + f) (world.truncate t) = Some (Inr wins', w')"
    by (simp add: add_flag_def)
  from Suc.IH [OF this] obtain fs
    where fs: "trial_flags n B T m M p (world.truncate t) = Some fs" "length fs = n"
      "wins' = wins + f + int (length (filter (\<lambda>f. f = 1) fs))"
    by blast
  from f fs r x show ?case by auto
qed

lemma simulate_loop_total:
  assumes "0 < m" "m \<le> B" "m \<le> M" "0 < T"
  shows "\<exists>wins' w'. simulate_loop n B T m M p wins w = Some (Inr wins', w')"
proof (induction n arbitrary: wins w)
  case 0
  show ?case by simp
next
  case (Suc n)
  from iterate_martingale_flag [OF assms, of p w False]
  obtain f t' where r: "iterate_martingale B T m M p False w = Some (Inr (PInt f), t')"
    by blast
  from Suc.IH [of "wins + f" "world.truncate t'"] r show ?case
    by (simp add: add_flag_def)
qed

text \<open>
  C10. Whenever \<open>simulate_martingales\<close> returns a value, all 1000 trials have
  returned a flag, and the value is the number of flags equal to 1 divided by 1000:
  a multiple of 1/1000 between 0 and 1. When a first spin is possible and the minimum bet
  is positive, a value is returned for every random stream.
\<close>

theorem simulate_martingales_rate:
  "(simulate_martingales bankroll0 target min_bet max_bet win_probability w = Some (Inr v, w') \<longrightarrow>
      (\<exists>fs. trial_flags 1000 bankroll0 target min_bet max_bet win_probability w = Some fs \<and>
         length fs = 1000 \<and>
         v = of_nat (length (filter (\<lambda>f. f = 1) fs)) / 1000 \<and>
         (\<exists>k::nat. k \<le> 1000 \<and> v = of_nat k / 1000) \<and> 0 \<le> v \<and> v \<le> 1)) \<and>
   (0 < min_bet \<and> min_bet \<le> bankroll0 \<and> min_bet \<le> max_bet \<and> 0 < target \<longrightarrow>
      (\<exists>v w'. simulate_martingales bankroll0 target min_bet max_bet win_probability w
         = Some (Inr v, w')))"
proof (intro conjI impI)
  assume "simulate_martingales bankroll0 target min_bet max_bet win_probability w
      = Some (Inr v, w')"
  then obtain wins
    where l: "simulate_loop 1000 bankroll0 target min_bet max_bet win_probability 0 w
        = Some (Inr wins, w')"
      and v: "v = of_int wins / 1000"
    by (auto simp add: simulate_martingales_def split: option.splits sum.splits)
  from simulate_loop_flags [OF l] obtain fs
    where fs: "trial_flags 1000 bankroll0 target min_bet max_bet win_probability w = Some fs"
      "length fs = 1000" "wins = int (length (filter (\<lambda>f. f = 1) fs))"
    by auto
  let ?k = "length (filter (\<lambda>f. f = 1) fs)"
  have k: "?k \<le> 1000"
    using length_filter_le [of "\<lambda>f. f = 1" fs] fs(2) by simp
  have e: "v = of_nat ?k / 1000"
    using v fs(3) by simp
  have "0 \<le> v" using e by simp
  moreover have "v \<le> 1" using e k by simp
  ultimately show "\<exists>fs. trial_flags 1000 bankroll0 target min_bet max_bet win_probability w
        = Some fs \<and> length fs = 1000 \<and>
         v = of_nat (length (filter (\<lambda>f. f = 1) fs)) / 1000 \<and>
         (\<exists>k::nat. k \<le> 1000 \<and> v = of_nat k / 1000) \<and> 0 \<le> v \<and> v \<le> 1"
    using fs(1,2) e k by blast
next
  assume "0 < min_bet \<and> min_bet \<le> bankroll0 \<and> min_bet \<le> max_bet \<and> 0 < target"
  then have h: "0 < min_bet" "min_bet \<le> bankroll0" "min_bet \<le> max_bet" "0 < target"
    by simp_all
  from simulate_loop_total [OF h, of 1000 win_probability 0 w]
  obtain wins w' where "simulate_loop 1000 bankroll0 target min_bet max_bet win_probability 0 w
      = Some (Inr wins, w')"
    by blast
  then have "simulate_martingales bankroll0 target min_bet max_bet win_probability w
      = Some (Inr (of_int wins * 1 / 1000), w')"
    by (simp add: simulate_martingales_def)
  then show "\<exists>v w'. simulate_martingales bankroll0 target min_bet max_bet win_probability w
         = Some (Inr v, w')"
    by blast
qed

lemma simulate_loop_unfold:
  "simulate_loop (Suc n) B T m M p wins w =
     (case iterate_martingale B T m M p False w of
        None \<Rightarrow> None
      | Some (Inl e, t) \<Rightarrow> Some (Inl e, world.truncate t)
      | Some (Inr v, t) \<Rightarrow>
          (case add_flag wins v of
             Inl e \<Rightarrow> Some (Inl e, world.truncate t)
           | Inr wins' \<Rightarrow> simulate_loop n B T m M p wins' (world.truncate t)))"
  by simp

text \<open>
  C8 at the failing input \<open>bankroll = 3\<close>, \<open>target = 5\<close>, \<open>min_bet = 5\<close>,
  \<open>max_bet = 500\<close>: the first trial raises and no rate is returned.
\<close>

theorem simulate_first_trial_raises:
  "map_option fst (simulate_martingales 3 5 5 500 (1/2) \<lparr>rng = sconst 0, stdout = []\<rparr>)
     = Some (Inl (UnboundLocalError ''reached_target''))"
proof -
  have n: "(1000::nat) = Suc 999" by simp
  have "iterate_martingale 3 5 5 500 (1/2) False \<lparr>rng = sconst 0, stdout = []\<rparr>
      = Some (Inl (UnboundLocalError ''reached_target''),
          iterate_init 3 5 \<lparr>rng = sconst 0, stdout = []\<rparr>)"
    by (simp add: trial_eval)
  then show ?thesis
    by (simp only: simulate_martingales_def n simulate_loop_unfold) simp
qed

lemma sure_win_trial:
  "iterate_martingale 100 5 5 500 1 False \<lparr>rng = sconst 0, stdout = []\<rparr>
     = Some (Inr (PInt 1),
        \<lparr>rng = sconst 0, stdout = [], bankroll = 105, bankroll_log = [100, 105], bet = 5,
         winnings = 5, outcome = Some (Congratulations 5), spins = 1, gain = 5,
         reached_target = Some 1\<rparr>)"
  by (simp add: trial_eval)

lemma sure_win_loop:
  "simulate_loop n 100 5 5 500 1 wins \<lparr>rng = sconst 0, stdout = []\<rparr>
     = Some (Inr (wins + int n), \<lparr>rng = sconst 0, stdout = []\<rparr>)"
  by (induction n arbitrary: wins) (simp_all add: sure_win_trial add_flag_def world.truncate_def)

text \<open>
  Witness of C10: with win probability 1 every trial wins its first spin.
\<close>

theorem simulate_martingales_rate_witness:
  "simulate_martingales 100 5 5 500 1 \<lparr>rng = sconst 0, stdout = []\<rparr>
     = Some (Inr 1, \<lparr>rng = sconst 0, stdout = []\<rparr>) \<and>
   (\<exists>fs. trial_flags 1000 100 5 5 500 1 \<lparr>rng = sconst 0, stdout = []\<rparr> = Some fs \<and>
      length fs = 1000 \<and> (1::rat) = of_nat (length (filter (\<lambda>f. f = 1) fs)) / 1000) \<and>
   (0::int) < 5 \<and> (5::int) \<le> 100 \<and> (5::int) \<le> 500"
proof -
  have h: "simulate_martingales 100 5 5 500 1 \<lparr>rng = sconst 0, stdout = []\<rparr>
     = Some (Inr 1, \<lparr>rng = sconst 0, stdout = []\<rparr>)"
    by (simp add: simulate_martingales_def sure_win_loop)
  from simulate_martingales_rate [where v = 1 and w' = "\<lparr>rng = sconst 0, stdout = []\<rparr>",
      THEN conjunct1, THEN mp, OF h]
  show ?thesis using h by auto
qed

end
